theory Spec2Isabelle
  imports Complex_Main "HOL-Library.Sublist"
begin

section \<open>Text\<close>

text \<open>
  A Python \<open>str\<close> is a sequence of Unicode code points. A code point is modelled as a
  natural number and a text as a list of them, so that \<open>length\<close> is Python's \<open>len\<close>
  and every code point (not only the 8-bit ones of \<^typ>\<open>char\<close>) is covered. \<open>lit\<close> turns an
  ASCII literal of the source into such a text.
\<close>

type_synonym str = "nat list"

definition lit :: "string \<Rightarrow> str" where
  "lit s = map of_char s"

text \<open>
  \<open>kw in content\<close> on two strings: \<open>kw\<close> occurs in \<open>content\<close> as a contiguous run,
  tested position by position.
\<close>

fun contains :: "'a list \<Rightarrow> 'a list \<Rightarrow> bool" where
  "contains kw [] = (kw = [])"
| "contains kw (c # cs) = (prefix kw (c # cs) \<or> contains kw cs)"

section \<open>Log processor\<close>

text \<open>
  \<open>LogProcessor\<close>: the ANSI switch and the two keyword lists set by \<open>set_keywords\<close>.
  The compiled patterns are functions of \<open>filter_ansi\<close> and of the constant table, so
  they are not fields.
\<close>

record processor =
  filter_ansi :: bool
  include_keywords :: "str list"
  exclude_keywords :: "str list"

definition new_processor :: "bool \<Rightarrow> processor" where
  "new_processor fa = \<lparr>filter_ansi = fa, include_keywords = [], exclude_keywords = []\<rparr>"

definition set_keywords :: "processor \<Rightarrow> str list \<Rightarrow> str list \<Rightarrow> processor" where
  "set_keywords pr inc exc = pr\<lparr>include_keywords := inc, exclude_keywords := exc\<rparr>"

text \<open>
  \<open>LogProcessor.filter\<close>: the \<open>for\<close> loop returns False at the first exclude keyword found
  in the content; after it, \<open>any(...)\<close> over the include keywords when that list is
  non-empty, True otherwise.
\<close>

definition filter_py :: "processor \<Rightarrow> str \<Rightarrow> bool" where
  "filter_py pr content =
     (if list_ex (\<lambda>kw. contains kw content) (exclude_keywords pr) then False
      else if include_keywords pr \<noteq> [] then list_ex (\<lambda>kw. contains kw content) (include_keywords pr)
      else True)"

subsection \<open>Corruption repair\<close>

text \<open>
  \<open>_CHAR_FIX_MAP\<close>, in the order of the dictionary literal, which is the order of the
  alternatives of \<open>char_fix_pattern\<close>.
\<close>

definition CHAR_FIX_MAP :: "(str \<times> str) list" where
  "CHAR_FIX_MAP =
     [(lit ''mainEx'', lit ''main''),
      (lit ''Server threadEx'', lit ''Server thread''),
      (lit ''Worker-Main-Ex'', lit ''Worker-Main-'')]"

text \<open>
  One match attempt of an alternation of escaped literals at the start of \<open>s\<close>: the first
  alternative that is a prefix of \<open>s\<close> wins. The result is the replacement the
  \<open>lambda\<close> looks up for the matched key, and the text after the match.
\<close>

fun match_alt :: "(str \<times> str) list \<Rightarrow> str \<Rightarrow> (str \<times> str) option" where
  "match_alt [] s = None"
| "match_alt ((k, v) # kvs) s =
     (if prefix k s then Some (v, drop (length k) s) else match_alt kvs s)"

definition char_fix_match :: "str \<Rightarrow> (str \<times> str) option" where
  "char_fix_match s = match_alt CHAR_FIX_MAP s"

lemma char_fix_match_shorter:
  assumes "char_fix_match s = Some (v, rest)"
  shows "length v + length rest < length s"
proof -
  have le: "\<And>k. prefix k s \<Longrightarrow> length k \<le> length s"
    by (rule prefix_length_le)
  from assms show ?thesis
    unfolding char_fix_match_def CHAR_FIX_MAP_def
    by (auto simp: lit_def split: if_splits dest!: le)
qed

text \<open>
  \<open>char_fix_pattern.sub(lambda m: _CHAR_FIX_MAP[m.group()], content)\<close>: the scan goes
  left to right; where the pattern matches, the replacement is written and the scan
  resumes after the match; elsewhere the character is copied. No alternative is empty, so
  the empty-match rule of \<open>re.sub\<close> never applies.
\<close>

function char_fix_sub :: "str \<Rightarrow> str" where
  "char_fix_sub [] = []"
| "char_fix_sub (c # cs) =
     (case char_fix_match (c # cs) of
        Some (v, rest) \<Rightarrow> v @ char_fix_sub rest
      | None \<Rightarrow> c # char_fix_sub cs)"
  by pat_completeness auto
termination
proof (relation "measure length")
  show "wf (measure length)" by simp
next
  fix c :: nat and cs x2 x y
  assume "char_fix_match (c # cs) = Some x2" and "(x, y) = x2"
  then have "char_fix_match (c # cs) = Some (x, y)" by simp
  from char_fix_match_shorter [OF this] show "(y, c # cs) \<in> measure length" by simp
next
  fix c :: nat and cs
  show "(cs, c # cs) \<in> measure length" by simp
qed

subsection \<open>ANSI stripping\<close>

text \<open>
  \<open>ansi_pattern\<close> is \<open>\x1B(?:[@-Z\\-_]|\[[0-?]*[ -/]*[@-~])\<close>: ESC (27), then either one
  character of \<open>[@-Z]\<close> (64..90) or \<open>[\-_]\<close> (92..95), or \<open>[\<close> (91) followed by parameter
  characters \<open>[0-?]\<close> (48..63), intermediate characters \<open>[ -/]\<close> (32..47) and one final
  character \<open>[@-~]\<close> (64..126). The three classes of the second alternative are pairwise
  disjoint, so the greedy stars take the longest runs and giving characters back can never
  lead to a match: one attempt at the start of \<open>s\<close> is the function below, which returns
  the text after the match.
\<close>

definition is_esc2 :: "nat \<Rightarrow> bool" where
  "is_esc2 c = ((64 \<le> c \<and> c \<le> 90) \<or> (92 \<le> c \<and> c \<le> 95))"

definition is_param :: "nat \<Rightarrow> bool" where
  "is_param c = (48 \<le> c \<and> c \<le> 63)"

definition is_inter :: "nat \<Rightarrow> bool" where
  "is_inter c = (32 \<le> c \<and> c \<le> 47)"

definition is_final :: "nat \<Rightarrow> bool" where
  "is_final c = (64 \<le> c \<and> c \<le> 126)"

fun ansi_match :: "str \<Rightarrow> str option" where
  "ansi_match (e # c # s) =
     (if e \<noteq> 27 then None
      else if is_esc2 c then Some s
      else if c = 91 then
        (case dropWhile is_inter (dropWhile is_param s) of
           [] \<Rightarrow> None
         | f # s' \<Rightarrow> if is_final f then Some s' else None)
      else None)"
| "ansi_match s = None"

lemma ansi_match_shorter:
  assumes "ansi_match s = Some rest"
  shows "length rest < length s"
proof (cases s rule: ansi_match.cases)
  case (1 e c t)
  have "length (dropWhile is_inter (dropWhile is_param t)) \<le> length t"
    by (meson length_dropWhile_le order_trans)
  with assms 1 show ?thesis
    by (auto split: if_splits list.splits)
qed (use assms in auto)

text \<open>\<open>ansi_pattern.sub('', content)\<close>: every match is deleted, the rest is copied.\<close>

function ansi_sub :: "str \<Rightarrow> str" where
  "ansi_sub [] = []"
| "ansi_sub (c # cs) =
     (case ansi_match (c # cs) of
        Some rest \<Rightarrow> ansi_sub rest
      | None \<Rightarrow> c # ansi_sub cs)"
  by pat_completeness auto
termination
proof (relation "measure length")
  show "wf (measure length)" by simp
next
  fix c :: nat and cs rest
  assume "ansi_match (c # cs) = Some rest"
  from ansi_match_shorter [OF this] show "(rest, c # cs) \<in> measure length" by simp
next
  fix c :: nat and cs
  show "(cs, c # cs) \<in> measure length" by simp
qed

text \<open>
  \<open>LogProcessor.clean\<close>: repair first, then strip when \<open>filter_ansi\<close> is set (the pattern
  is compiled exactly then).
\<close>

definition clean :: "processor \<Rightarrow> str \<Rightarrow> str" where
  "clean pr content =
     (let content = char_fix_sub content
      in if filter_ansi pr then ansi_sub content else content)"

section \<open>Configuration\<close>

subsection \<open>Values the configuration parser hands over\<close>

text \<open>
  A Python \<open>float\<close>: a finite value, an infinity or NaN (\<open>float("nan")\<close> and
  \<open>float("inf")\<close> parse). Finite values are real numbers; rounding is not modelled.
  \<open>flt a b\<close> is \<open>a < b\<close>: every comparison with NaN is False.
\<close>

datatype pyfloat = Fin real | PosInf | NegInf | NaN

fun flt :: "pyfloat \<Rightarrow> pyfloat \<Rightarrow> bool" where
  "flt NaN b = False"
| "flt a NaN = False"
| "flt (Fin a) (Fin b) = (a < b)"
| "flt (Fin a) PosInf = True"
| "flt (Fin a) NegInf = False"
| "flt PosInf b = False"
| "flt NegInf NegInf = False"
| "flt NegInf b = True"

text \<open>
  \<open>min(a, b)\<close> and \<open>max(a, b)\<close> keep the first argument unless the second is strictly
  smaller (greater), which matters for NaN.
\<close>

definition py_min :: "pyfloat \<Rightarrow> pyfloat \<Rightarrow> pyfloat" where
  "py_min a b = (if flt b a then b else a)"

definition py_max :: "pyfloat \<Rightarrow> pyfloat \<Rightarrow> pyfloat" where
  "py_max a b = (if flt a b then b else a)"

text \<open>\<open>x / 1000\<close> on a float.\<close>

fun div_1000 :: "pyfloat \<Rightarrow> pyfloat" where
  "div_1000 (Fin a) = Fin (a / 1000)"
| "div_1000 x = x"

text \<open>
  What one typed read of the parser (\<open>getboolean\<close>, \<open>getint\<close>, \<open>getfloat\<close>, \<open>get\<close>)
  does for a section and a key: it returns a value, raises \<open>NoOptionError\<close>, raises
  \<open>ValueError\<close> (text that does not parse), or raises something else: a key written
  without a value is None under \<open>allow_no_value\<close>, so \<open>int(None)\<close> is a TypeError and
  \<open>None.strip()\<close> an AttributeError, and a value with a stray \<open>%\<close> is an
  InterpolationSyntaxError, which is not a \<open>ValueError\<close>. The parser itself is the
  standard library's; the model takes its answers as given.
\<close>

datatype 'a lookup = Got 'a | NoOptionError | ValueError | OtherError

record config_parser =
  cp_has_section :: "string \<Rightarrow> bool"
  cp_getboolean :: "string \<Rightarrow> string \<Rightarrow> bool lookup"
  cp_getint :: "string \<Rightarrow> string \<Rightarrow> int lookup"
  cp_getfloat :: "string \<Rightarrow> string \<Rightarrow> pyfloat lookup"
  cp_get :: "string \<Rightarrow> string \<Rightarrow> str lookup"

datatype exc =
  FileNotFoundError | IsADirectoryError | PermissionError | RuntimeError
  | ConfigError | PathError | ReadError

text \<open>
  \<open>Path(s).resolve()\<close>: the operating system turns the string into an absolute path,
  or the call raises (a \<open>ValueError\<close> on an embedded NUL character, for one). What it
  answers depends on the working directory and the file system, so the model takes the
  resolver as given.
\<close>

type_synonym resolver = "str \<Rightarrow> exc + str"

subsection \<open>Strings of the configuration\<close>

text \<open>\<open>str.isspace\<close> on one code point: the white space of Unicode.\<close>

definition isspace :: "nat \<Rightarrow> bool" where
  "isspace c =
     ((9 \<le> c \<and> c \<le> 13) \<or> (28 \<le> c \<and> c \<le> 32) \<or> c = 133 \<or> c = 160 \<or> c = 5760
      \<or> (8192 \<le> c \<and> c \<le> 8202) \<or> c = 8232 \<or> c = 8233 \<or> c = 8239 \<or> c = 8287
      \<or> c = 12288)"

text \<open>\<open>s.strip()\<close>: white space is removed at both ends.\<close>

definition strip :: "str \<Rightarrow> str" where
  "strip s = rev (dropWhile isspace (rev (dropWhile isspace s)))"

text \<open>
  \<open>s.split(sep)\<close> for a separator of one character: one piece more than there are
  separators, empty pieces kept.
\<close>

fun split_on :: "nat \<Rightarrow> str \<Rightarrow> str list" where
  "split_on sep [] = [[]]"
| "split_on sep (c # cs) =
     (if c = sep then [] # split_on sep cs
      else (case split_on sep cs of
              p # ps \<Rightarrow> (c # p) # ps
            | [] \<Rightarrow> [[c]]))"

text \<open>
  \<open>list(set([k.strip() for k in raw.split(",") if k.strip()]))\<close>. Python leaves the order
  of a list made from a set open; \<open>remdups\<close> fixes one, and nothing below depends on it.
\<close>

definition parse_keywords :: "str \<Rightarrow> str list" where
  "parse_keywords raw =
     remdups (map strip (filter (\<lambda>k. strip k \<noteq> []) (split_on 44 raw)))"

subsection \<open>Reading one parameter\<close>

text \<open>
  \<open>ConfigManager._get_param\<close>, with the parser's answer \<open>r\<close> for the typed read the
  \<open>dtype\<close> selects: a missing section, \<open>NoOptionError\<close> and \<open>ValueError\<close> give the
  default; any other exception leaves the function.
\<close>

definition get_param :: "config_parser \<Rightarrow> string \<Rightarrow> 'a lookup \<Rightarrow> 'a \<Rightarrow> exc + 'a" where
  "get_param cp sec r dflt =
     (if \<not> cp_has_section cp sec then Inr dflt
      else (case r of
              Got v \<Rightarrow> Inr v
            | NoOptionError \<Rightarrow> Inr dflt
            | ValueError \<Rightarrow> Inr dflt
            | OtherError \<Rightarrow> Inl ConfigError))"

definition get_param_bool :: "config_parser \<Rightarrow> string \<Rightarrow> string \<Rightarrow> bool \<Rightarrow> exc + bool" where
  "get_param_bool cp sec key dflt = get_param cp sec (cp_getboolean cp sec key) dflt"

definition get_param_int :: "config_parser \<Rightarrow> string \<Rightarrow> string \<Rightarrow> int \<Rightarrow> exc + int" where
  "get_param_int cp sec key dflt = get_param cp sec (cp_getint cp sec key) dflt"

definition get_param_float :: "config_parser \<Rightarrow> string \<Rightarrow> string \<Rightarrow> pyfloat \<Rightarrow> exc + pyfloat" where
  "get_param_float cp sec key dflt = get_param cp sec (cp_getfloat cp sec key) dflt"

text \<open>For \<open>dtype == str\<close> the value read is stripped; the dflt is returned as it is.\<close>

definition get_param_str :: "config_parser \<Rightarrow> string \<Rightarrow> string \<Rightarrow> str \<Rightarrow> exc + str" where
  "get_param_str cp sec key dflt =
     get_param cp sec
       (case cp_get cp sec key of
          Got v \<Rightarrow> Got (strip v)
        | NoOptionError \<Rightarrow> NoOptionError
        | ValueError \<Rightarrow> ValueError
        | OtherError \<Rightarrow> OtherError)
       dflt"

subsection \<open>The parameter bundle\<close>

text \<open>
  The dictionary \<open>valid_params\<close>, one field per key. \<open>file_path\<close> is the resolved
  path, as a string. The three keys that the processor also has carry the prefix
  \<open>cfg_\<close>.
\<close>

record params =
  file_path :: str
  wait_for_file :: bool
  wait_interval :: pyfloat
  chunk_size :: int
  encoding :: str
  error_handle :: str
  interval :: pyfloat
  read_full_on_truncate :: bool
  truncate_sensitivity :: int
  show_status :: bool
  cfg_filter_ansi :: bool
  cfg_include_keywords :: "str list"
  cfg_exclude_keywords :: "str list"
  auto_close_delay :: int
  show_stats :: bool

definition SUPPORTED_ENCODINGS :: "str list" where
  "SUPPORTED_ENCODINGS = [lit ''utf-8'', lit ''gbk'', lit ''gb2312'', lit ''utf-8-sig'']"

definition SUPPORTED_ERROR_HANDLES :: "str list" where
  "SUPPORTED_ERROR_HANDLES = [lit ''replace'', lit ''ignore'', lit ''strict'']"

text \<open>
  The default of \<open>File_Path\<close>, a Windows path with Chinese directory names, written by
  its code points where it is not ASCII (92 is the backslash).
\<close>

definition DEFAULT_FILE_PATH :: str where
  "DEFAULT_FILE_PATH =
     lit ''D:'' @ [92, 26381, 21153, 22120, 92, 24320, 26381, 20384, 92] @ lit ''server''
     @ [92] @ lit ''logs'' @ [92] @ lit ''latest.log''"

text \<open>An exception raised while the dictionary is built leaves the function at once.\<close>

definition bind_exc :: "exc + 'a \<Rightarrow> ('a \<Rightarrow> exc + 'b) \<Rightarrow> exc + 'b" where
  "bind_exc m f = (case m of Inl e \<Rightarrow> Inl e | Inr v \<Rightarrow> f v)"

text \<open>
  \<open>ConfigManager._validate_and_load_params\<close>, the entries in the order of the dictionary
  display. \<open>Encoding\<close> and \<open>Error_Handle\<close> are read twice by the source (once for the
  test, once for the value); the two reads give the same answer, so each is bound once.
  The defaults are those of the \<open>defaults\<close> dictionary. The path read is resolved
  outside the \<open>try\<close> of \<open>_get_param\<close>, so an exception of \<open>resolve\<close> leaves the function.
\<close>

definition validate_and_load_params :: "resolver \<Rightarrow> config_parser \<Rightarrow> exc + params" where
  "validate_and_load_params resolve cp =
     bind_exc (get_param_str cp ''LogSource'' ''File_Path'' DEFAULT_FILE_PATH) (\<lambda>raw.
     bind_exc (resolve raw) (\<lambda>fp.
     bind_exc (get_param_bool cp ''LogSource'' ''Wait_For_File'' True) (\<lambda>wff.
     bind_exc (get_param_float cp ''LogSource'' ''Wait_Interval'' (Fin 5)) (\<lambda>wi.
     bind_exc (get_param_int cp ''ReadConfig'' ''Chunk_Size'' 32768) (\<lambda>cs.
     bind_exc (get_param_str cp ''ReadConfig'' ''Encoding'' (lit ''utf-8'')) (\<lambda>enc.
     bind_exc (get_param_str cp ''ReadConfig'' ''Error_Handle'' (lit ''replace'')) (\<lambda>eh.
     bind_exc (get_param_float cp ''MonitorConfig'' ''Interval_MS'' (Fin 1000)) (\<lambda>ms.
     bind_exc (get_param_bool cp ''MonitorConfig'' ''Read_Full_On_Truncate'' True) (\<lambda>rf.
     bind_exc (get_param_int cp ''MonitorConfig'' ''Truncate_Sensitivity'' 1024) (\<lambda>ts.
     bind_exc (get_param_bool cp ''DisplayConfig'' ''Show_Status'' True) (\<lambda>ss.
     bind_exc (get_param_bool cp ''DisplayConfig'' ''Filter_ANSI_Code'' False) (\<lambda>fa.
     bind_exc (get_param_str cp ''DisplayConfig'' ''Log_Filter'' (lit ''ERROR,WARN,INFO'')) (\<lambda>lf.
     bind_exc (get_param_str cp ''DisplayConfig'' ''Exclude_Filter'' (lit ''DEBUG'')) (\<lambda>ef.
     bind_exc (get_param_int cp ''QuitConfig'' ''Auto_Close_Delay'' 3) (\<lambda>acd.
     bind_exc (get_param_bool cp ''QuitConfig'' ''Show_Stats'' True) (\<lambda>sst.
     Inr \<lparr>file_path = fp,
          wait_for_file = wff,
          wait_interval = py_max (Fin 1) (py_min wi (Fin 30)),
          chunk_size = max 4096 (min cs 131072),
          encoding = (if enc \<in> set SUPPORTED_ENCODINGS then enc else lit ''utf-8''),
          error_handle = (if eh \<in> set SUPPORTED_ERROR_HANDLES then eh else lit ''replace''),
          interval = py_max (Fin (1 / 10)) (py_min (div_1000 ms) (Fin 5)),
          read_full_on_truncate = rf,
          truncate_sensitivity = max 128 (min ts 4096),
          show_status = ss,
          cfg_filter_ansi = fa,
          cfg_include_keywords = parse_keywords lf,
          cfg_exclude_keywords = parse_keywords ef,
          auto_close_delay = max 0 (min acd 10),
          show_stats = sst\<rparr>))))))))))))))))"

section \<open>Monitor\<close>

subsection \<open>The file and the console\<close>

text \<open>
  What the operating system answers about \<open>file_path\<close> at one moment: the tests of
  \<open>_validate_file\<close>, whether \<open>open\<close>, \<open>stat\<close>, \<open>read\<close> and \<open>close\<close> raise, the size in
  bytes that \<open>stat\<close> reports, and the decoded text that reading the file yields (in text
  mode \<open>read(n)\<close> counts characters, so positions and lengths below are in characters).
\<close>

record file_snapshot =
  f_exists :: bool
  f_is_file :: bool
  f_readable :: bool
  f_open_fails :: bool
  f_stat_fails :: bool
  f_read_fails :: bool
  f_close_fails :: bool
  f_size :: int
  f_text :: str

text \<open>
  The effects that are observed: a chunk printed to standard output, a \<open>time.sleep\<close>
  with its duration in seconds, a \<open>close()\<close> of the handle, and the statistics report.
  Status lines, the banner and the countdown texts are decoration and are not recorded.
\<close>

datatype event = Emit str | Sleep pyfloat | CloseHandle | StatsReport

text \<open>
  An open handle: the read cursor and whether its \<open>close()\<close> is going to raise. The
  field \<open>_file\<close> is None or an open handle (it is set to None right after every close).
\<close>

record handle =
  h_pos :: nat
  h_close_fails :: bool

record monitor_state =
  file_handle :: "handle option"
  is_running :: bool
  last_file_size :: int
  stats_logs :: int
  stats_bytes :: int
  stats_truncates :: int
  stats_errors :: int

text \<open>The fields as \<open>LogMonitor.__init__\<close> sets them.\<close>

definition init_state :: monitor_state where
  "init_state =
     \<lparr>file_handle = None, is_running = False, last_file_size = 0,
      stats_logs = 0, stats_bytes = 0, stats_truncates = 0, stats_errors = 0\<rparr>"

text \<open>
  \<open>f.read(n)\<close> on a text of which \<open>pos\<close> characters are already consumed: up to \<open>n\<close>
  characters, everything that is left when \<open>n\<close> is negative, nothing at or after the end.
\<close>

definition file_read :: "int \<Rightarrow> str \<Rightarrow> nat \<Rightarrow> str" where
  "file_read n txt pos = (if n < 0 then drop pos txt else take (nat n) (drop pos txt))"

subsection \<open>Validation, close, open\<close>

datatype validation = StillWaiting | Invalid exc | Valid file_snapshot

text \<open>
  \<open>LogMonitor._validate_file\<close>. The list holds what the successive \<open>exists()\<close> polls
  see; the other two tests look at the snapshot that exists. When the list ends while the
  loop is still waiting, the result is \<open>StillWaiting\<close>.
\<close>

fun validate_file :: "params \<Rightarrow> file_snapshot list \<Rightarrow> event list \<times> validation" where
  "validate_file p [] = ([], StillWaiting)"
| "validate_file p (f # fs) =
     (if \<not> f_exists f then
        (if wait_for_file p then
           (case validate_file p fs of (evs, r) \<Rightarrow> (Sleep (wait_interval p) # evs, r))
         else ([], Invalid FileNotFoundError))
      else if \<not> f_is_file f then ([], Invalid IsADirectoryError)
      else if \<not> f_readable f then ([], Invalid PermissionError)
      else ([], Valid f))"

text \<open>\<open>LogMonitor._close_file\<close>: a failing close is counted, never raised.\<close>

definition close_file :: "monitor_state \<Rightarrow> event list \<times> monitor_state" where
  "close_file st =
     (case file_handle st of
        None \<Rightarrow> ([], st\<lparr>file_handle := None\<rparr>)
      | Some h \<Rightarrow>
          if h_close_fails h
          then ([CloseHandle], st\<lparr>stats_errors := stats_errors st + 1, file_handle := None\<rparr>)
          else ([CloseHandle], st\<lparr>file_handle := None\<rparr>))"

text \<open>
  The replay loop of \<open>_open_file\<close>, \<open>while chunk := self._file.read(chunk_size)\<close>, on
  the text \<open>txt\<close> from cursor \<open>pos\<close>: each chunk is counted, cleaned and printed when it
  passes the filter. The result is the output, the final cursor and \<open>total_bytes\<close>.
\<close>

function read_full_loop ::
  "processor \<Rightarrow> int \<Rightarrow> str \<Rightarrow> nat \<Rightarrow> int \<Rightarrow> event list \<times> nat \<times> int" where
  "read_full_loop pr n txt pos tb =
     (let chunk = file_read n txt pos in
      if chunk = [] then ([], pos, tb)
      else (case read_full_loop pr n txt (pos + length chunk) (tb + int (length chunk)) of
              (evs, pos', tb') \<Rightarrow>
                ((if filter_py pr (clean pr chunk) then [Emit (clean pr chunk)] else []) @ evs,
                 pos', tb')))"
  by pat_completeness auto
termination
proof (relation "measure (\<lambda>(pr, n, txt, pos, tb). length txt - pos)")
  show "wf (measure (\<lambda>(pr, n, txt, pos, tb). length txt - pos))" by simp
next
  fix prc :: processor and n :: int and data :: str and pos :: nat and tb :: int and chunk
  assume c: "chunk = file_read n data pos" and ne: "chunk \<noteq> []"
  from c ne have "pos < length data"
    by (auto simp: file_read_def split: if_splits)
  moreover from ne have "0 < length chunk" by simp
  ultimately have "length data - (pos + length chunk) < length data - pos" by arith
  then show "((prc, n, data, pos + length chunk, tb + int (length chunk)),
                    (prc, n, data, pos, tb))
                   \<in> measure (\<lambda>(pr, n, data, pos, tb). length data - pos)"
    by simp
qed

declare read_full_loop.simps [simp del]

text \<open>
  \<open>LogMonitor._open_file\<close> on the snapshot \<open>f\<close>. Every exception inside the \<open>try\<close>
  leaves as \<open>RuntimeError\<close>; the handle that \<open>open\<close> returned stays in \<open>_file\<close> when a
  later step raises. A failing \<open>read\<close> is taken to fail at the first call.
\<close>

definition open_file ::
  "params \<Rightarrow> processor \<Rightarrow> monitor_state \<Rightarrow> bool \<Rightarrow> file_snapshot
   \<Rightarrow> event list \<times> monitor_state \<times> exc option" where
  "open_file p pr st read_full f =
     (case close_file st of (evs0, st0) \<Rightarrow>
        if f_open_fails f then (evs0, st0, Some RuntimeError)
        else
          let st1 = st0\<lparr>file_handle := Some \<lparr>h_pos = 0, h_close_fails = f_close_fails f\<rparr>\<rparr> in
          if f_stat_fails f then (evs0, st1, Some RuntimeError)
          else
            let st2 = st1\<lparr>last_file_size := f_size f\<rparr> in
            if read_full then
              (if f_read_fails f then (evs0, st2, Some RuntimeError)
               else (case read_full_loop pr (chunk_size p) (f_text f) 0 0 of
                       (evs, pos, tb) \<Rightarrow>
                         (evs0 @ evs,
                          st2\<lparr>file_handle := Some \<lparr>h_pos = pos, h_close_fails = f_close_fails f\<rparr>,
                              stats_bytes := stats_bytes st2 + tb,
                              stats_logs := stats_logs st2 + tb div 100\<rparr>,
                          None)))
            else
              (evs0,
               st2\<lparr>file_handle := Some \<lparr>h_pos = length (f_text f), h_close_fails = f_close_fails f\<rparr>\<rparr>,
               None))"

subsection \<open>Truncation detection\<close>

text \<open>
  \<open>LogMonitor._detect_truncate\<close> on the snapshot \<open>f\<close>: a failing \<open>stat\<close> is counted
  and answers False without touching \<open>_last_file_size\<close>.
\<close>

definition detect_truncate ::
  "params \<Rightarrow> monitor_state \<Rightarrow> file_snapshot \<Rightarrow> bool \<times> monitor_state" where
  "detect_truncate p st f =
     (if f_stat_fails f then (False, st\<lparr>stats_errors := stats_errors st + 1\<rparr>)
      else
        let current_size = f_size f;
            size_diff = \<bar>current_size - last_file_size st\<bar>
        in if current_size < last_file_size st \<and> size_diff \<ge> truncate_sensitivity p
           then (True, st\<lparr>stats_truncates := stats_truncates st + 1,
                         last_file_size := current_size\<rparr>)
           else (False, st\<lparr>last_file_size := current_size\<rparr>))"

text \<open>
  A run of size checks, one per snapshot, each on the state the previous one left: the
  answers in order, and the final state.
\<close>

fun detect_seq ::
  "params \<Rightarrow> monitor_state \<Rightarrow> file_snapshot list \<Rightarrow> bool list \<times> monitor_state" where
  "detect_seq p st [] = ([], st)"
| "detect_seq p st (f # fs) =
     (case detect_truncate p st f of
        (b, st1) \<Rightarrow> (case detect_seq p st1 fs of (bs, st2) \<Rightarrow> (b # bs, st2)))"

subsection \<open>Stop\<close>

text \<open>\<open>LogMonitor._print_stats\<close>: nothing is printed when \<open>show_stats\<close> is off.\<close>

definition print_stats :: "params \<Rightarrow> event list" where
  "print_stats p = (if \<not> show_stats p then [] else [StatsReport])"

text \<open>
  \<open>LogMonitor.stop\<close>. The third component is None when the method returns (the monitor
  was not running) and \<open>Some c\<close> when it ends in \<open>sys.exit(c)\<close>. The countdown sleeps one
  second \<open>auto_close_delay\<close> times.
\<close>

definition stop :: "params \<Rightarrow> monitor_state \<Rightarrow> event list \<times> monitor_state \<times> int option" where
  "stop p st =
     (if \<not> is_running st then ([], st, None)
      else
        (case close_file (st\<lparr>is_running := False\<rparr>) of
           (evs, st1) \<Rightarrow>
             (evs @ print_stats p
                  @ (if auto_close_delay p > 0
                     then replicate (nat (auto_close_delay p)) (Sleep (Fin 1)) else []),
              st1, Some 0)))"

subsection \<open>The poll loop\<close>

text \<open>
  One pass through the body of \<open>while self._is_running\<close> in \<open>start\<close>, on the snapshot
  \<open>f\<close>: the output, the new state, and the exception that left the body, if any. After a
  detected truncation with \<open>read_full_on_truncate\<close> the body is \<open>_open_file(True)\<close>
  followed by \<open>continue\<close>; otherwise one bounded read and the sleep.
\<close>

definition poll_cycle ::
  "params \<Rightarrow> processor \<Rightarrow> monitor_state \<Rightarrow> file_snapshot
   \<Rightarrow> event list \<times> monitor_state \<times> exc option" where
  "poll_cycle p pr st f =
     (case detect_truncate p st f of
        (truncated, st1) \<Rightarrow>
          if truncated \<and> read_full_on_truncate p then open_file p pr st1 True f
          else
            (case file_handle st1 of
               None \<Rightarrow> ([Sleep (interval p)], st1, None)
             | Some h \<Rightarrow>
                 if f_read_fails f then ([], st1, Some ReadError)
                 else
                   let new_content = file_read (chunk_size p) (f_text f) (h_pos h) in
                   if new_content \<noteq> [] then
                     ((if filter_py pr (clean pr new_content)
                       then [Emit (clean pr new_content)] else [])
                      @ [Sleep (interval p)],
                      st1\<lparr>file_handle := Some (h\<lparr>h_pos := h_pos h + length new_content\<rparr>),
                          stats_bytes := stats_bytes st1 + int (length new_content),
                          stats_logs := stats_logs st1 + 1\<rparr>,
                      None)
                   else ([Sleep (interval p)], st1, None)))"

text \<open>
  How a piece of the program ends: it is still going when the observations end, it
  returns, an exception leaves it, or \<open>SystemExit\<close> with an exit code leaves it.
\<close>

datatype outcome = StillRunning | Returned | Raised exc | SysExit int

text \<open>
  The loop over the poll cycles the observations cover. Each cycle comes with its
  snapshot and with whether the registered termination signal arrives during it; the
  handler \<open>stop\<close> then runs when the body is done, and its \<open>SystemExit\<close> leaves the loop.
\<close>

fun run ::
  "params \<Rightarrow> processor \<Rightarrow> monitor_state \<Rightarrow> (file_snapshot \<times> bool) list
   \<Rightarrow> event list \<times> monitor_state \<times> outcome" where
  "run p pr st [] = ([], st, if is_running st then StillRunning else Returned)"
| "run p pr st ((f, sig) # cycles) =
     (if \<not> is_running st then ([], st, Returned)
      else
        (case poll_cycle p pr st f of
           (evs, st1, Some e) \<Rightarrow> (evs, st1, Raised e)
         | (evs, st1, None) \<Rightarrow>
             (case (if sig then stop p st1 else ([], st1, None)) of
                (evs2, st2, Some c) \<Rightarrow> (evs @ evs2, st2, SysExit c)
              | (evs2, st2, None) \<Rightarrow>
                  (case run p pr st2 cycles of
                     (evs3, st3, r) \<Rightarrow> (evs @ evs2 @ evs3, st3, r)))))"

subsection \<open>Start and the entry point\<close>

text \<open>The \<open>try\<close> block of \<open>LogMonitor.start\<close>.\<close>

definition start_try ::
  "params \<Rightarrow> processor \<Rightarrow> monitor_state \<Rightarrow> file_snapshot list
   \<Rightarrow> (file_snapshot \<times> bool) list \<Rightarrow> event list \<times> monitor_state \<times> outcome" where
  "start_try p pr st obs cycles =
     (case validate_file p obs of
        (evs, StillWaiting) \<Rightarrow> (evs, st, StillRunning)
      | (evs, Invalid e) \<Rightarrow> (evs, st, Raised e)
      | (evs, Valid f) \<Rightarrow>
          (case open_file p pr st False f of
             (evs1, st1, Some e) \<Rightarrow> (evs @ evs1, st1, Raised e)
           | (evs1, st1, None) \<Rightarrow>
               (case run p pr (st1\<lparr>is_running := True\<rparr>) cycles of
                  (evs2, st2, r) \<Rightarrow> (evs @ evs1 @ evs2, st2, r))))"

text \<open>
  \<open>LogMonitor.start\<close>: \<open>except Exception\<close> counts the error and swallows it,
  \<open>SystemExit\<close> is not an \<open>Exception\<close> and passes, and \<open>finally\<close> calls \<open>stop\<close> on every
  way out; a \<open>sys.exit\<close> of that call replaces whatever was leaving.
\<close>

definition start ::
  "params \<Rightarrow> processor \<Rightarrow> monitor_state \<Rightarrow> file_snapshot list
   \<Rightarrow> (file_snapshot \<times> bool) list \<Rightarrow> event list \<times> monitor_state \<times> outcome" where
  "start p pr st obs cycles =
     (case start_try p pr st obs cycles of
        (evs, st1, StillRunning) \<Rightarrow> (evs, st1, StillRunning)
      | (evs, st1, Raised e) \<Rightarrow>
          (case stop p (st1\<lparr>stats_errors := stats_errors st1 + 1\<rparr>) of
             (evs2, st2, Some c) \<Rightarrow> (evs @ evs2, st2, SysExit c)
           | (evs2, st2, None) \<Rightarrow> (evs @ evs2, st2, Returned))
      | (evs, st1, SysExit c) \<Rightarrow>
          (case stop p st1 of
             (evs2, st2, Some c2) \<Rightarrow> (evs @ evs2, st2, SysExit c2)
           | (evs2, st2, None) \<Rightarrow> (evs @ evs2, st2, SysExit c))
      | (evs, st1, Returned) \<Rightarrow>
          (case stop p st1 of
             (evs2, st2, Some c2) \<Rightarrow> (evs @ evs2, st2, SysExit c2)
           | (evs2, st2, None) \<Rightarrow> (evs @ evs2, st2, Returned)))"

text \<open>
  \<open>main\<close>, from a parser that holds a configuration file which passed the corruption
  check: the exit status of the process, or None while it is still running when the
  observations end. The constructor of \<open>LogMonitor\<close> loads the parameters and sets up the
  processor; an exception reaching \<open>main\<close> ends in \<open>sys.exit(1)\<close>; a normal return of
  \<open>main\<close> ends the process with status 0.
\<close>

definition main ::
  "resolver \<Rightarrow> config_parser \<Rightarrow> file_snapshot list \<Rightarrow> (file_snapshot \<times> bool) list
   \<Rightarrow> int option" where
  "main resolve cp obs cycles =
     (case validate_and_load_params resolve cp of
        Inl e \<Rightarrow> Some 1
      | Inr p \<Rightarrow>
          (case start p
                  (set_keywords (new_processor (cfg_filter_ansi p))
                     (cfg_include_keywords p) (cfg_exclude_keywords p))
                  init_state obs cycles of
             (evs, st, StillRunning) \<Rightarrow> None
           | (evs, st, Returned) \<Rightarrow> Some 0
           | (evs, st, Raised e) \<Rightarrow> Some 1
           | (evs, st, SysExit c) \<Rightarrow> Some c))"

subsection \<open>Example inputs\<close>

text \<open>
  A resolver that raises on an embedded NUL character and leaves every other path as it
  is (a path that is absolute and free of links already).
\<close>

definition plain_resolve :: resolver where
  "plain_resolve s = (if 0 \<in> set s then Inl PathError else Inr s)"

text \<open>
  The bundle that the \<open>defaults\<close> dictionary gives (every section missing), and a
  readable regular file on which no operation fails, of a given size and text.
\<close>

definition default_params :: params where
  "default_params =
     \<lparr>file_path = DEFAULT_FILE_PATH, wait_for_file = True, wait_interval = Fin 5,
      chunk_size = 32768, encoding = lit ''utf-8'', error_handle = lit ''replace'',
      interval = Fin 1, read_full_on_truncate = True, truncate_sensitivity = 1024,
      show_status = True, cfg_filter_ansi = False,
      cfg_include_keywords = parse_keywords (lit ''ERROR,WARN,INFO''),
      cfg_exclude_keywords = parse_keywords (lit ''DEBUG''),
      auto_close_delay = 3, show_stats = True\<rparr>"

definition plain_file :: "int \<Rightarrow> str \<Rightarrow> file_snapshot" where
  "plain_file sz txt =
     \<lparr>f_exists = True, f_is_file = True, f_readable = True, f_open_fails = False,
      f_stat_fails = False, f_read_fails = False, f_close_fails = False,
      f_size = sz, f_text = txt\<rparr>"



text \<open>A parser whose file holds \<open>Chunk_Size = 50%\<close> and nothing else.\<close>

definition percent_config :: config_parser where
  "percent_config =
     \<lparr>cp_has_section = (\<lambda>sec. True),
      cp_getboolean = (\<lambda>sec key. NoOptionError),
      cp_getint = (\<lambda>sec key. if key = ''Chunk_Size'' then OtherError else NoOptionError),
      cp_getfloat = (\<lambda>sec key. NoOptionError),
      cp_get = (\<lambda>sec key. NoOptionError)\<rparr>"

text \<open>
  A parser whose file sets \<open>Wait_For_File\<close> to False and nothing else; a processor
  with one include and one exclude keyword; and a monitor that is tailing the file, with
  its cursor and its size baseline.
\<close>

definition nowait_config :: config_parser where
  "nowait_config =
     \<lparr>cp_has_section = (\<lambda>sec. True),
      cp_getboolean = (\<lambda>sec key. if key = ''Wait_For_File'' then Got False else NoOptionError),
      cp_getint = (\<lambda>sec key. NoOptionError),
      cp_getfloat = (\<lambda>sec key. NoOptionError),
      cp_get = (\<lambda>sec key. NoOptionError)\<rparr>"

definition info_processor :: processor where
  "info_processor =
     \<lparr>filter_ansi = False, include_keywords = [lit ''INFO''], exclude_keywords = [lit ''DEBUG'']\<rparr>"

definition tail_state :: "nat \<Rightarrow> int \<Rightarrow> monitor_state" where
  "tail_state pos sz =
     init_state\<lparr>file_handle := Some \<lparr>h_pos = pos, h_close_fails = False\<rparr>,
                is_running := True, last_file_size := sz\<rparr>"

subsection \<open>Notions used to state the properties\<close>


text \<open>
  A text holds a corrupted token when some key of \<open>_CHAR_FIX_MAP\<close> occurs in it, and
  an ANSI escape sequence when \<open>ansi_pattern\<close> matches at some position of it.
\<close>

definition has_token :: "str \<Rightarrow> bool" where
  "has_token s = list_ex (\<lambda>kv. contains (fst kv) s) CHAR_FIX_MAP"

fun has_ansi :: "str \<Rightarrow> bool" where
  "has_ansi [] = False"
| "has_ansi (c # cs) = (ansi_match (c # cs) \<noteq> None \<or> has_ansi cs)"

text \<open>The chunks printed to standard output, in order.\<close>

fun emitted :: "event list \<Rightarrow> str list" where
  "emitted [] = []"
| "emitted (Emit t # evs) = t # emitted evs"
| "emitted (e # evs) = emitted evs"

text \<open>
  The chunks that successive calls of \<open>read(n)\<close> return from cursor \<open>pos\<close> on, up to the
  first empty one.
\<close>

function read_chunks :: "int \<Rightarrow> str \<Rightarrow> nat \<Rightarrow> str list" where
  "read_chunks n txt pos =
     (let chunk = file_read n txt pos in
      if chunk = [] then [] else chunk # read_chunks n txt (pos + length chunk))"
  by pat_completeness auto
termination
proof (relation "measure (\<lambda>(n, txt, pos). length txt - pos)")
  show "wf (measure (\<lambda>(n, txt, pos). length txt - pos))" by simp
next
  fix n :: int and data :: str and pos :: nat and chunk
  assume c: "chunk = file_read n data pos" and ne: "chunk \<noteq> []"
  from c ne have "pos < length data"
    by (auto simp: file_read_def split: if_splits)
  moreover from ne have "0 < length chunk" by simp
  ultimately have "length data - (pos + length chunk) < length data - pos" by arith
  then show "((n, data, pos + length chunk), (n, data, pos))
             \<in> measure (\<lambda>(n, txt, pos). length txt - pos)"
    by simp
qed

declare read_chunks.simps [simp del]

section \<open>Properties of the processor\<close>

subsection \<open>Keyword filter\<close>

lemma contains_iff: "contains kw s \<longleftrightarrow> (\<exists>p q. s = p @ kw @ q)"
proof -
  have "contains kw s = sublist kw s"
    by (induction s) (simp_all add: sublist_Cons_right)
  then show ?thesis by (simp add: sublist_def)
qed

text \<open>
  Claim C1. For every text and every two keyword lists, \<open>filter\<close> answers False when
  some exclude keyword occurs in the text as a contiguous run of characters, whatever
  the include keywords are; otherwise it answers True exactly when the include list is
  empty or some include keyword occurs in the text. Occurrence is literal: the text is
  some prefix, then the keyword, then some suffix.
\<close>

theorem filter_spec:
  "filter_py pr content =
     (if \<exists>kw \<in> set (exclude_keywords pr). \<exists>p q. content = p @ kw @ q then False
      else (include_keywords pr = []
            \<or> (\<exists>kw \<in> set (include_keywords pr). \<exists>p q. content = p @ kw @ q)))"
  by (simp add: filter_py_def list_ex_iff contains_iff)

theorem filter_spec_witness:
  "filter_py \<lparr>filter_ansi = False, include_keywords = [lit ''INFO''],
              exclude_keywords = [lit ''DEBUG'']\<rparr> (lit ''INFO hello DEBUG skip'') = False
   \<and> filter_py \<lparr>filter_ansi = False, include_keywords = [lit ''INFO''],
              exclude_keywords = [lit ''DEBUG'']\<rparr> (lit ''INFO hello'') = True"
  using filter_spec [of "\<lparr>filter_ansi = False, include_keywords = [lit ''INFO''],
              exclude_keywords = [lit ''DEBUG'']\<rparr>" "lit ''INFO hello DEBUG skip''"]
  by (simp add: filter_py_def lit_def)

subsection \<open>The repair table\<close>

text \<open>
  A successful match attempt of the repair pattern consumes a key of the table that is
  a prefix of the text, and the replacement it returns is the value the table holds for
  that key, which is what \<open>_CHAR_FIX_MAP[m.group()]\<close> looks up.
\<close>

lemma match_alt_lookup:
  "match_alt kvs s = Some (v, rest) \<Longrightarrow>
     \<exists>k. prefix k s \<and> map_of kvs k = Some v \<and> rest = drop (length k) s"
proof (induction kvs s rule: match_alt.induct)
  case (1 s)
  then show ?case by simp
next
  case (2 k w kvs s)
  show ?case
  proof (cases "prefix k s")
    case True
    with 2(2) show ?thesis by auto
  next
    case False
    with 2 obtain k' where "prefix k' s" "map_of kvs k' = Some v" "rest = drop (length k') s"
      by auto
    moreover from this False have "k' \<noteq> k" by auto
    ultimately show ?thesis by auto
  qed
qed

lemma char_fix_match_lookup:
  "char_fix_match s = Some (v, rest) \<Longrightarrow>
     \<exists>k. prefix k s \<and> map_of CHAR_FIX_MAP k = Some v \<and> rest = drop (length k) s"
  unfolding char_fix_match_def by (rule match_alt_lookup)

subsection \<open>The escape pattern\<close>

text \<open>
  The match attempt computes the language of \<open>ansi_pattern\<close>: it succeeds with the rest
  \<open>rest\<close> exactly when the text is ESC, one character of the first class and \<open>rest\<close>, or
  ESC, \<open>[\<close>, parameter characters, intermediate characters, a final character and
  \<open>rest\<close>. Being a function, it shows that the split is unique, so the order in which a
  backtracking matcher tries the splits does not matter.
\<close>

lemma dropWhile_run:
  assumes "\<forall>x \<in> set xs. P x" and "ys = [] \<or> \<not> P (hd ys)"
  shows "dropWhile P (xs @ ys) = ys"
proof -
  from assms(1) have "dropWhile P (xs @ ys) = dropWhile P ys"
    by (simp add: dropWhile_append2)
  also from assms(2) have "\<dots> = ys" by (cases ys) auto
  finally show ?thesis .
qed

lemma ansi_match_iff:
  "ansi_match s = Some rest \<longleftrightarrow>
     (\<exists>c. s = 27 # c # rest \<and> is_esc2 c)
     \<or> (\<exists>ps ms fc. s = 27 # 91 # ps @ ms @ fc # rest
           \<and> (\<forall>x \<in> set ps. is_param x) \<and> (\<forall>x \<in> set ms. is_inter x) \<and> is_final fc)"
  (is "?L \<longleftrightarrow> ?A \<or> ?B")
proof
  assume l: ?L
  then obtain e c t where s: "s = e # c # t"
    by (cases s rule: ansi_match.cases) auto
  with l have e: "e = 27" by (auto split: if_splits)
  show "?A \<or> ?B"
  proof (cases "is_esc2 c")
    case True
    with l s e show ?thesis by simp
  next
    case False
    with l s e have c: "c = 91" by (auto split: if_splits)
    let ?ps = "takeWhile is_param t" and ?u = "dropWhile is_param t"
    let ?ms = "takeWhile is_inter ?u"
    from l s e c False obtain fc where d: "dropWhile is_inter ?u = fc # rest" and f: "is_final fc"
      by (auto split: list.splits if_splits)
    have "t = ?ps @ ?u" by simp
    also have "?u = ?ms @ dropWhile is_inter ?u" by simp
    finally have "t = ?ps @ ?ms @ fc # rest" using d by simp
    moreover have "\<forall>x \<in> set ?ps. is_param x" by (auto dest: set_takeWhileD)
    moreover have "\<forall>x \<in> set ?ms. is_inter x" by (auto dest: set_takeWhileD)
    ultimately have ?B using s e c f by blast
    then show ?thesis ..
  qed
next
  assume "?A \<or> ?B"
  then show ?L
  proof
    assume ?A
    then show ?L by auto
  next
    assume ?B
    then obtain ps ms fc where s: "s = 27 # 91 # ps @ ms @ fc # rest"
      and ps: "\<forall>x \<in> set ps. is_param x" and ms: "\<forall>x \<in> set ms. is_inter x"
      and f: "is_final fc"
      by blast
    from ms f have "ms @ fc # rest = [] \<or> \<not> is_param (hd (ms @ fc # rest))"
      by (cases ms) (auto simp: is_param_def is_inter_def is_final_def)
    with ps have 1: "dropWhile is_param (ps @ ms @ fc # rest) = ms @ fc # rest"
      by (rule dropWhile_run)
    from f have "fc # rest = [] \<or> \<not> is_inter (hd (fc # rest))"
      by (simp add: is_inter_def is_final_def)
    with ms have 2: "dropWhile is_inter (ms @ fc # rest) = fc # rest"
      by (rule dropWhile_run)
    have "\<not> is_esc2 91" by (simp add: is_esc2_def)
    with s 1 2 f show ?L by simp
  qed
qed

subsection \<open>Cleaning never lengthens\<close>

lemma length_char_fix_sub: "length (char_fix_sub s) \<le> length s"
proof (induction s rule: char_fix_sub.induct)
  case 1
  then show ?case by simp
next
  case (2 c cs)
  show ?case
  proof (cases "char_fix_match (c # cs)")
    case None
    with 2 show ?thesis by simp
  next
    case (Some a)
    obtain v rest where a: "a = (v, rest)" by (cases a)
    from Some a have m: "char_fix_match (c # cs) = Some (v, rest)" by simp
    from char_fix_match_shorter [OF m] 2(2) [OF Some a [symmetric]] m
    show ?thesis by simp
  qed
qed

lemma length_ansi_sub: "length (ansi_sub s) \<le> length s"
proof (induction s rule: ansi_sub.induct)
  case 1
  then show ?case by simp
next
  case (2 c cs)
  show ?case
  proof (cases "ansi_match (c # cs)")
    case None
    with 2 show ?thesis by simp
  next
    case (Some rest)
    from ansi_match_shorter [OF Some] 2(2) [OF Some] Some
    show ?thesis by simp
  qed
qed

text \<open>
  Claim C9. For every text and both settings of \<open>filter_ansi\<close>, the cleaned text is at
  most as long as the text: a repair writes fewer characters than it consumes, and
  stripping only deletes.
\<close>

theorem clean_length: "length (clean pr content) \<le> length content"
  using length_char_fix_sub [of content] length_ansi_sub [of "char_fix_sub content"]
  by (simp add: clean_def Let_def)

theorem clean_length_witness:
  "length (clean \<lparr>filter_ansi = True, include_keywords = [], exclude_keywords = []\<rparr>
             (lit ''mainEx'' @ [27, 91, 51, 49, 109] @ lit ''x'')) \<le> 12"
  using clean_length [of "\<lparr>filter_ansi = True, include_keywords = [], exclude_keywords = []\<rparr>"
      "lit ''mainEx'' @ [27, 91, 51, 49, 109] @ lit ''x''"]
  by (simp add: lit_def)

subsection \<open>Cleaning twice\<close>

lemma match_alt_None: "match_alt kvs s = None \<longleftrightarrow> (\<forall>kv \<in> set kvs. \<not> prefix (fst kv) s)"
  by (induction kvs s rule: match_alt.induct) auto

lemma has_token_Cons:
  "has_token (c # cs) \<longleftrightarrow> char_fix_match (c # cs) \<noteq> None \<or> has_token cs"
  by (auto simp: has_token_def char_fix_match_def match_alt_None list_ex_iff)

lemma char_fix_sub_id: "\<not> has_token s \<Longrightarrow> char_fix_sub s = s"
proof (induction s)
  case Nil
  then show ?case by simp
next
  case (Cons c cs)
  from Cons.prems have "\<not> (char_fix_match (c # cs) \<noteq> None \<or> has_token cs)"
    unfolding has_token_Cons .
  then have "char_fix_match (c # cs) = None" and "\<not> has_token cs"
    by blast+
  with Cons.IH show ?case by simp
qed

lemma char_fix_sub_shorter: "has_token s \<Longrightarrow> length (char_fix_sub s) < length s"
proof (induction s rule: char_fix_sub.induct)
  case 1
  then show ?case by (simp add: has_token_def CHAR_FIX_MAP_def lit_def)
next
  case (2 c cs)
  show ?case
  proof (cases "char_fix_match (c # cs)")
    case None
    with 2(3) have "has_token cs" by (simp add: has_token_Cons)
    from 2(1) [OF None this] None show ?thesis by simp
  next
    case (Some a)
    obtain v rest where a: "a = (v, rest)" by (cases a)
    from Some a have m: "char_fix_match (c # cs) = Some (v, rest)" by simp
    from char_fix_match_shorter [OF m] length_char_fix_sub [of rest] m
    show ?thesis by simp
  qed
qed

lemma ansi_sub_id: "\<not> has_ansi s \<Longrightarrow> ansi_sub s = s"
proof (induction s)
  case Nil
  then show ?case by simp
next
  case (Cons c cs)
  then have "ansi_match (c # cs) = None" and "ansi_sub cs = cs"
    by simp_all
  then show ?case by simp
qed

lemma ansi_sub_shorter: "has_ansi s \<Longrightarrow> length (ansi_sub s) < length s"
proof (induction s rule: ansi_sub.induct)
  case 1
  then show ?case by simp
next
  case (2 c cs)
  show ?case
  proof (cases "ansi_match (c # cs)")
    case None
    with 2(3) have "has_ansi cs" by simp
    from 2(1) [OF None this] None show ?thesis by simp
  next
    case (Some rest)
    from ansi_match_shorter [OF Some] length_ansi_sub [of rest] Some
    show ?thesis by simp
  qed
qed

lemma clean_fixed_point:
  assumes "filter_ansi pr"
  shows "clean pr s = s \<longleftrightarrow> \<not> has_token s \<and> \<not> has_ansi s"
proof (cases "has_token s")
  case True
  from char_fix_sub_shorter [OF True] length_ansi_sub [of "char_fix_sub s"] assms
  have "length (clean pr s) < length s" by (simp add: clean_def)
  then have "clean pr s \<noteq> s" by auto
  with True show ?thesis by simp
next
  case False
  then have c: "clean pr s = ansi_sub s"
    using assms by (simp add: clean_def char_fix_sub_id)
  show ?thesis
  proof (cases "has_ansi s")
    case True
    from ansi_sub_shorter [OF True] c have "clean pr s \<noteq> s" by auto
    with True show ?thesis by simp
  next
    case h: False
    with False c show ?thesis by (simp add: ansi_sub_id)
  qed
qed

text \<open>
  Claim C5, as stated, fails: one pass can bring the pieces of a new match together.
  On \<open>mainExEx\<close> the first pass gives \<open>mainEx\<close> and the second gives \<open>main\<close>.
\<close>

theorem clean_not_idempotent:
  "clean \<lparr>filter_ansi = True, include_keywords = [], exclude_keywords = []\<rparr>
     (clean \<lparr>filter_ansi = True, include_keywords = [], exclude_keywords = []\<rparr>
        (lit ''mainExEx''))
   \<noteq> clean \<lparr>filter_ansi = True, include_keywords = [], exclude_keywords = []\<rparr>
       (lit ''mainExEx'')"
  by (simp add: clean_def lit_def char_fix_match_def CHAR_FIX_MAP_def)

text \<open>
  Claim C5, amended. With \<open>filter_ansi\<close> enabled, cleaning a second time changes
  nothing exactly when the text cleaned once holds no corrupted token and no ANSI escape
  sequence.
\<close>

theorem clean_twice:
  "filter_ansi pr \<Longrightarrow>
     (clean pr (clean pr content) = clean pr content)
       = (\<not> has_token (clean pr content) \<and> \<not> has_ansi (clean pr content))"
  by (rule clean_fixed_point)

theorem clean_twice_witness:
  "clean \<lparr>filter_ansi = True, include_keywords = [], exclude_keywords = []\<rparr>
     (clean \<lparr>filter_ansi = True, include_keywords = [], exclude_keywords = []\<rparr>
        (lit ''mainEx'' @ [27, 91, 51, 49, 109] @ lit ''x''))
   = clean \<lparr>filter_ansi = True, include_keywords = [], exclude_keywords = []\<rparr>
       (lit ''mainEx'' @ [27, 91, 51, 49, 109] @ lit ''x'')
   \<and> clean \<lparr>filter_ansi = True, include_keywords = [], exclude_keywords = []\<rparr>
       (lit ''mainEx'' @ [27, 91, 51, 49, 109] @ lit ''x'') = lit ''mainx''"
  using clean_twice [of "\<lparr>filter_ansi = True, include_keywords = [], exclude_keywords = []\<rparr>"
      "lit ''mainEx'' @ [27, 91, 51, 49, 109] @ lit ''x''"]
  by (simp add: clean_def lit_def char_fix_match_def CHAR_FIX_MAP_def has_token_def
      is_esc2_def is_param_def is_inter_def is_final_def)

section \<open>Properties of the configuration\<close>

subsection \<open>Clamped parameters\<close>











lemma plain_resolve_default: "plain_resolve DEFAULT_FILE_PATH = Inr DEFAULT_FILE_PATH"
  by (simp add: plain_resolve_def DEFAULT_FILE_PATH_def lit_def)

lemma load_missing_sections:
  "(\<And>sec. \<not> cp_has_section cp sec) \<Longrightarrow>
     validate_and_load_params plain_resolve cp = Inr default_params"
  by (simp add: validate_and_load_params_def bind_exc_def default_params_def
      get_param_def get_param_bool_def get_param_int_def get_param_float_def get_param_str_def
      py_max_def py_min_def SUPPORTED_ENCODINGS_def SUPPORTED_ERROR_HANDLES_def
      plain_resolve_default)


text \<open>
  No bundle is loaded when the resolver raises on the path read, nor when a read raises
  something that \<open>_get_param\<close> does not catch: the exception leaves the constructor.
\<close>

lemma load_resolve_fails:
  "get_param_str cp ''LogSource'' ''File_Path'' DEFAULT_FILE_PATH = Inr raw \<Longrightarrow>
   resolve raw = Inl e \<Longrightarrow> validate_and_load_params resolve cp = Inl e"
  by (simp add: validate_and_load_params_def bind_exc_def)

lemma load_uncaught_error:
  "validate_and_load_params plain_resolve percent_config = Inl ConfigError"
  by (simp add: validate_and_load_params_def bind_exc_def percent_config_def
      get_param_def get_param_bool_def get_param_int_def get_param_float_def get_param_str_def
      plain_resolve_default)







subsection \<open>Keyword lists\<close>

lemma last_dropWhile: "dropWhile P xs \<noteq> [] \<Longrightarrow> last (dropWhile P xs) = last xs"
  by (induction xs) (auto simp del: dropWhile_eq_Nil_conv)

lemma strip_ends:
  assumes "strip s \<noteq> []"
  shows "\<not> isspace (hd (strip s))" and "\<not> isspace (last (strip s))"
proof -
  let ?t = "dropWhile isspace s"
  let ?u = "dropWhile isspace (rev ?t)"
  from assms have u: "?u \<noteq> []" by (simp add: strip_def)
  have t: "?t \<noteq> []"
  proof
    assume "?t = []"
    then have "?u = []" by (simp only: rev.simps dropWhile.simps)
    with u show False by contradiction
  qed
  have "last (strip s) = hd ?u"
    using u by (simp add: strip_def last_rev)
  with hd_dropWhile [OF u] show "\<not> isspace (last (strip s))" by simp
  have lastu: "last ?u = last (rev ?t)"
    using u by (rule last_dropWhile)
  have "hd (strip s) = last ?u"
    using u by (simp add: strip_def hd_rev)
  also have "\<dots> = hd ?t" using lastu t by (simp add: last_rev)
  finally show "\<not> isspace (hd (strip s))"
    using hd_dropWhile [OF t] by simp
qed

lemma strip_idem: "strip (strip s) = strip s"
proof (cases "strip s = []")
  case True
  have "strip [] = []" by (simp add: strip_def)
  with True show ?thesis by (simp only:)
next
  case False
  from strip_ends(1) [OF False] False
  have a: "dropWhile isspace (strip s) = strip s"
    by (cases "strip s") simp_all
  have "rev (strip s) = dropWhile isspace (rev (dropWhile isspace s))"
    by (simp add: strip_def)
  then have "dropWhile isspace (rev (strip s)) = rev (strip s)"
    by (simp only: dropWhile_idem)
  then have "rev (dropWhile isspace (rev (strip s))) = strip s"
    by (simp only: rev_rev_ident)
  with a show ?thesis
    by (simp only: strip_def [of "strip s"])
qed

text \<open>
  Claim C10. For every raw comma-separated string, the derived keyword list has no
  duplicates, and each of its entries is a stripped piece of the string: it is not empty,
  it neither starts nor ends with white space (stripping it again changes nothing), and it
  holds a character that is not white space.
\<close>

theorem parse_keywords_spec:
  "distinct (parse_keywords raw)
   \<and> (\<forall>k \<in> set (parse_keywords raw).
         k \<noteq> [] \<and> \<not> isspace (hd k) \<and> \<not> isspace (last k) \<and> strip k = k
         \<and> (\<exists>c \<in> set k. \<not> isspace c)
         \<and> (\<exists>piece \<in> set (split_on 44 raw). k = strip piece))"
proof (intro conjI ballI)
  show "distinct (parse_keywords raw)"
    by (simp add: parse_keywords_def)
next
  fix k
  assume "k \<in> set (parse_keywords raw)"
  then obtain piece where p: "piece \<in> set (split_on 44 raw)"
    and k: "k = strip piece" and ne: "strip piece \<noteq> []"
    by (auto simp: parse_keywords_def)
  from ne k show "k \<noteq> []" by simp
  from strip_ends(1) [OF ne] k show h: "\<not> isspace (hd k)" by simp
  from strip_ends(2) [OF ne] k show "\<not> isspace (last k)" by simp
  from k show "strip k = k" by (simp only: strip_idem)
  from ne k have "hd k \<in> set k" by simp
  with h show "\<exists>c \<in> set k. \<not> isspace c" by blast
  from p k show "\<exists>piece \<in> set (split_on 44 raw). k = strip piece" by blast
qed

theorem parse_keywords_spec_witness:
  "set (parse_keywords (lit '' ERROR , WARN,,  ,ERROR'')) = {lit ''ERROR'', lit ''WARN''}
   \<and> length (parse_keywords (lit '' ERROR , WARN,,  ,ERROR'')) = 2
   \<and> distinct (parse_keywords (lit '' ERROR , WARN,,  ,ERROR''))"
  using parse_keywords_spec [of "lit '' ERROR , WARN,,  ,ERROR''"]
  by (auto simp: parse_keywords_def strip_def isspace_def lit_def)

section \<open>Properties of the monitor\<close>

subsection \<open>Truncation detection\<close>

text \<open>
  Claim C2. A size check that succeeds answers True exactly when the size seen is below
  \<open>_last_file_size\<close> and the absolute difference is at least \<open>truncate_sensitivity\<close>, and
  in either case it leaves \<open>_last_file_size\<close> at the size seen. So with sensitivity 500
  and a baseline of at most 1000 (0 after construction, 1000 after opening the file), the
  sizes 1000, 1000, 200 give the answers False, False, True.
\<close>

theorem detect_truncate_spec:
  "(\<not> f_stat_fails f \<longrightarrow>
      fst (detect_truncate p st f)
        = (f_size f < last_file_size st
           \<and> \<bar>f_size f - last_file_size st\<bar> \<ge> truncate_sensitivity p)
      \<and> last_file_size (snd (detect_truncate p st f)) = f_size f)
   \<and> (truncate_sensitivity p = 500 \<and> last_file_size st \<le> 1000
        \<and> \<not> f_stat_fails f1 \<and> \<not> f_stat_fails f2 \<and> \<not> f_stat_fails f3
        \<and> f_size f1 = 1000 \<and> f_size f2 = 1000 \<and> f_size f3 = 200
      \<longrightarrow> fst (detect_seq p st [f1, f2, f3]) = [False, False, True])"
  by (auto simp: detect_truncate_def Let_def)

theorem detect_truncate_spec_witness:
  "fst (detect_truncate (default_params\<lparr>truncate_sensitivity := 500\<rparr>)
          (init_state\<lparr>last_file_size := 1000\<rparr>) (plain_file 200 [])) = True
   \<and> last_file_size (snd (detect_truncate (default_params\<lparr>truncate_sensitivity := 500\<rparr>)
          init_state (plain_file 950 []))) = 950
   \<and> fst (detect_truncate (default_params\<lparr>truncate_sensitivity := 500\<rparr>)
          init_state (plain_file 950 [])) = False
   \<and> fst (detect_seq (default_params\<lparr>truncate_sensitivity := 500\<rparr>) init_state
          [plain_file 1000 [], plain_file 1000 [], plain_file 200 []]) = [False, False, True]"
  using detect_truncate_spec [where f = "plain_file 200 []"
      and p = "default_params\<lparr>truncate_sensitivity := 500\<rparr>"
      and st = "init_state\<lparr>last_file_size := 1000\<rparr>"
      and ?f1.0 = "plain_file 1000 []" and ?f2.0 = "plain_file 1000 []"
      and ?f3.0 = "plain_file 200 []"]
    detect_truncate_spec [where f = "plain_file 950 []"
      and p = "default_params\<lparr>truncate_sensitivity := 500\<rparr>"
      and st = init_state
      and ?f1.0 = "plain_file 1000 []" and ?f2.0 = "plain_file 1000 []"
      and ?f3.0 = "plain_file 200 []"]
  by (simp add: plain_file_def init_state_def default_params_def)

subsection \<open>Replay after a truncation\<close>

lemma emitted_append: "emitted (xs @ ys) = emitted xs @ emitted ys"
  by (induction xs rule: emitted.induct) simp_all

lemma read_full_loop_chunks:
  "read_full_loop q n data pos tb =
     (concat (map (\<lambda>c. if filter_py q (clean q c) then [Emit (clean q c)] else [])
                (read_chunks n data pos)),
      pos + length (concat (read_chunks n data pos)),
      tb + int (length (concat (read_chunks n data pos))))"
proof (induction q n data pos tb rule: read_full_loop.induct)
  case (1 q n data pos tb)
  show ?case
  proof (cases "file_read n data pos = []")
    case True
    then show ?thesis
      by (simp add: read_full_loop.simps [of q n data pos tb] read_chunks.simps [of n data pos])
  next
    case False
    from 1 [OF refl False] False show ?thesis
      by (simp add: read_full_loop.simps [of q n data pos tb] read_chunks.simps [of n data pos]
          Let_def)
  qed
qed

lemma concat_read_chunks: "0 < n \<Longrightarrow> concat (read_chunks n data pos) = drop pos data"
proof (induction n data pos rule: read_chunks.induct)
  case (1 n data pos)
  show ?case
  proof (cases "file_read n data pos = []")
    case True
    with 1(2) have "drop pos data = []"
      by (simp add: file_read_def)
    with True show ?thesis
      by (simp add: read_chunks.simps [of n data pos])
  next
    case False
    let ?c = "file_read n data pos"
    from 1(2) have c: "?c = take (nat n) (drop pos data)"
      by (simp add: file_read_def)
    have "drop (pos + length ?c) data = drop (length ?c) (drop pos data)"
      by (simp add: add.commute)
    also have "?c @ \<dots> = drop pos data"
      unfolding c by (metis append_take_drop_id length_take min.commute take_all_iff take_take
          append_Nil2 drop_all linorder_le_cases min_def)
    finally have "?c @ drop (pos + length ?c) data = drop pos data" .
    with 1(1) [OF refl False 1(2)] False show ?thesis
      by (simp add: read_chunks.simps [of n data pos] Let_def)
  qed
qed

lemma read_chunks_bound:
  "0 < n \<Longrightarrow> c \<in> set (read_chunks n data pos) \<Longrightarrow> c \<noteq> [] \<and> int (length c) \<le> n"
proof (induction n data pos rule: read_chunks.induct)
  case (1 n data pos)
  show ?case
  proof (cases "file_read n data pos = []")
    case True
    with 1(3) show ?thesis
      by (simp add: read_chunks.simps [of n data pos])
  next
    case False
    from 1(2) have "int (length (file_read n data pos)) \<le> n"
      by (simp add: file_read_def)
    with 1(1) [OF refl False 1(2)] 1(3) False show ?thesis
      by (auto simp: read_chunks.simps [of n data pos] Let_def)
  qed
qed

lemma emitted_choice:
  "emitted (concat (map (\<lambda>c. if P c then [Emit (g c)] else []) cs)) = map g (filter P cs)"
  by (induction cs) simp_all

lemma emitted_close_file: "emitted (fst (close_file st)) = []"
  by (simp add: close_file_def split: option.splits)

text \<open>
  Claim C6, as stated, fails: the replay prints a chunk only when it passes the keyword
  filter. A file that holds \<open>DEBUG skip\<close> is replayed without any output when \<open>DEBUG\<close>
  is an exclude keyword.
\<close>

theorem replay_drops_filtered:
  "concat (emitted (fst (open_file default_params info_processor init_state True
                           (plain_file 10 (lit ''DEBUG skip'')))))
   \<noteq> lit ''DEBUG skip''"
  by (simp add: open_file_def close_file_def init_state_def plain_file_def default_params_def
      info_processor_def read_full_loop.simps file_read_def filter_py_def clean_def lit_def
      char_fix_match_def CHAR_FIX_MAP_def Let_def)

text \<open>
  Claim C6, amended. A reopen with full replay that does not fail, with a positive chunk
  size, reads every character of the file as it is at that moment exactly once and in
  order, in chunks of at most \<open>chunk_size\<close> characters (the chunks read, put
  together, are the text); it prints the cleaned form of exactly the chunks that pass
  the filter, in order, so the whole text is printed once when every chunk passes and is
  left unchanged by cleaning; and it leaves the cursor at the end of the file, so that
  the next read returns only what was appended since.
\<close>

theorem replay_spec:
  assumes "0 < chunk_size p"
    and "\<not> f_open_fails f" and "\<not> f_stat_fails f" and "\<not> f_read_fails f"
    and "open_file p pr st True f = (evs, st', r)"
  shows "r = None
     \<and> concat (read_chunks (chunk_size p) (f_text f) 0) = f_text f
     \<and> (\<forall>c \<in> set (read_chunks (chunk_size p) (f_text f) 0).
            c \<noteq> [] \<and> int (length c) \<le> chunk_size p)
     \<and> emitted evs
         = map (clean pr)
             (filter (\<lambda>c. filter_py pr (clean pr c)) (read_chunks (chunk_size p) (f_text f) 0))
     \<and> file_handle st' = Some \<lparr>h_pos = length (f_text f), h_close_fails = f_close_fails f\<rparr>
     \<and> (\<forall>more. file_read (chunk_size p) (f_text f @ more) (length (f_text f))
                 = take (nat (chunk_size p)) more)
     \<and> ((\<forall>c \<in> set (read_chunks (chunk_size p) (f_text f) 0).
            filter_py pr (clean pr c) \<and> clean pr c = c)
          \<longrightarrow> concat (emitted evs) = f_text f)"
proof -
  let ?cs = "read_chunks (chunk_size p) (f_text f) 0"
  have cc: "concat ?cs = f_text f"
    using concat_read_chunks [OF assms(1), of "f_text f" 0] by simp
  obtain evs0 st0 where cf: "close_file st = (evs0, st0)" by (cases "close_file st")
  have e0: "emitted evs0 = []"
    using emitted_close_file [of st] cf by simp
  from assms(2-5) cf
  have evs: "evs = evs0 @ concat (map (\<lambda>c. if filter_py pr (clean pr c) then [Emit (clean pr c)] else []) ?cs)"
    and r: "r = None"
    and h: "file_handle st' = Some \<lparr>h_pos = length (concat ?cs), h_close_fails = f_close_fails f\<rparr>"
    by (auto simp: open_file_def read_full_loop_chunks Let_def)
  have em: "emitted evs = map (clean pr) (filter (\<lambda>c. filter_py pr (clean pr c)) ?cs)"
    unfolding evs by (simp add: emitted_append e0 emitted_choice)
  have rd: "file_read (chunk_size p) (f_text f @ more) (length (f_text f))
              = take (nat (chunk_size p)) more" for more
    using assms(1) by (simp add: file_read_def)
  have full: "concat (emitted evs) = f_text f"
    if "\<forall>c \<in> set ?cs. filter_py pr (clean pr c) \<and> clean pr c = c"
  proof -
    from that have "filter (\<lambda>c. filter_py pr (clean pr c)) ?cs = ?cs"
      by (auto simp: filter_id_conv)
    moreover from that have "map (clean pr) ?cs = ?cs"
      by (simp add: map_idI)
    ultimately show ?thesis using em cc by simp
  qed
  have bd: "\<forall>c \<in> set ?cs. c \<noteq> [] \<and> int (length c) \<le> chunk_size p"
    using read_chunks_bound [OF assms(1)] by blast
  from r cc bd em h rd full show ?thesis by (simp only: cc) blast
qed

theorem replay_spec_witness:
  "emitted (fst (open_file (default_params\<lparr>chunk_size := 6\<rparr>) info_processor init_state True
                   (plain_file 18 (lit ''INFO aDEBUG INFO b''))))
     = [lit ''INFO a'', lit ''INFO b'']
   \<and> file_handle (fst (snd (open_file (default_params\<lparr>chunk_size := 6\<rparr>) info_processor
                               init_state True (plain_file 18 (lit ''INFO aDEBUG INFO b'')))))
     = Some \<lparr>h_pos = 18, h_close_fails = False\<rparr>"
  using replay_spec [of "default_params\<lparr>chunk_size := 6\<rparr>" "plain_file 18 (lit ''INFO aDEBUG INFO b'')"
      info_processor init_state
      "fst (open_file (default_params\<lparr>chunk_size := 6\<rparr>) info_processor init_state True
                   (plain_file 18 (lit ''INFO aDEBUG INFO b'')))"
      "fst (snd (open_file (default_params\<lparr>chunk_size := 6\<rparr>) info_processor init_state True
                   (plain_file 18 (lit ''INFO aDEBUG INFO b''))))"
      "snd (snd (open_file (default_params\<lparr>chunk_size := 6\<rparr>) info_processor init_state True
                   (plain_file 18 (lit ''INFO aDEBUG INFO b''))))"]
  by (simp add: open_file_def close_file_def init_state_def plain_file_def default_params_def
      info_processor_def read_full_loop.simps file_read_def filter_py_def clean_def lit_def
      char_fix_match_def CHAR_FIX_MAP_def Let_def)

subsection \<open>The sleep of a poll cycle\<close>

lemma close_file_events: "set (fst (close_file st)) \<subseteq> {CloseHandle}"
  by (simp add: close_file_def split: option.splits)

lemma read_full_loop_events:
  "e \<in> set (fst (read_full_loop q n data pos tb)) \<Longrightarrow> \<exists>t. e = Emit t"
  by (auto simp: read_full_loop_chunks split: if_splits)

lemma open_file_no_sleep: "Sleep d \<notin> set (fst (open_file p q st rf f))"
proof -
  obtain evs0 st0 where cf: "close_file st = (evs0, st0)" by (cases "close_file st")
  with close_file_events [of st] have c: "Sleep d \<notin> set evs0" by auto
  have l: "Sleep d \<notin> set (fst (read_full_loop q (chunk_size p) (f_text f) 0 0))"
    using read_full_loop_events by blast
  obtain evs pos tb where rl: "read_full_loop q (chunk_size p) (f_text f) 0 0 = (evs, pos, tb)"
    by (cases "read_full_loop q (chunk_size p) (f_text f) 0 0")
  with l have "Sleep d \<notin> set evs" by simp
  with c cf rl show ?thesis
    by (simp add: open_file_def Let_def)
qed

text \<open>
  Claim C4, as stated, fails: a cycle that detects a truncation with
  \<open>read_full_on_truncate\<close> set closes the handle, replays the file and goes on to the
  next cycle through \<open>continue\<close>, without any sleep. Here the file shrank from 2000
  bytes to the nine characters \<open>INFO line\<close>.
\<close>

theorem replay_cycle_no_sleep:
  "fst (poll_cycle default_params info_processor (tail_state 2000 2000)
          (plain_file 9 (lit ''INFO line'')))
     = [CloseHandle, Emit (lit ''INFO line'')]
   \<and> snd (snd (poll_cycle default_params info_processor (tail_state 2000 2000)
                  (plain_file 9 (lit ''INFO line'')))) = None"
  by (simp add: poll_cycle_def detect_truncate_def open_file_def close_file_def tail_state_def
      init_state_def plain_file_def default_params_def read_full_loop.simps file_read_def Let_def
      info_processor_def filter_py_def clean_def lit_def char_fix_match_def CHAR_FIX_MAP_def)

text \<open>
  Claim C4, amended. A poll cycle that does not replay after a truncation and that no
  exception leaves ends with a sleep of \<open>interval\<close> seconds, its only sleep, whether or
  not data was read. A cycle that detects a truncation with \<open>read_full_on_truncate\<close> set
  is exactly the reopen with full replay, \<open>_open_file(read_full=True)\<close>, on the state the
  size check left (output, new state and exception alike), and it does not sleep at all.
\<close>

theorem poll_cycle_sleep:
  assumes "poll_cycle p pr st f = (evs, st', r)"
  shows "(\<not> (fst (detect_truncate p st f) \<and> read_full_on_truncate p) \<and> r = None
            \<longrightarrow> evs \<noteq> [] \<and> last evs = Sleep (interval p)
                \<and> (\<forall>d. Sleep d \<notin> set (butlast evs)))
       \<and> (fst (detect_truncate p st f) \<and> read_full_on_truncate p
            \<longrightarrow> (evs, st', r) = open_file p pr (snd (detect_truncate p st f)) True f
                \<and> (\<forall>d. Sleep d \<notin> set evs))"
proof -
  have replay: "(evs, st', r) = open_file p pr (snd (detect_truncate p st f)) True f
      \<and> (\<forall>d. Sleep d \<notin> set evs)"
    if "fst (detect_truncate p st f) \<and> read_full_on_truncate p"
  proof -
    from that assms have eq: "(evs, st', r) = open_file p pr (snd (detect_truncate p st f)) True f"
      by (cases "detect_truncate p st f") (simp add: poll_cycle_def)
    then have "evs = fst (open_file p pr (snd (detect_truncate p st f)) True f)"
      by (metis fst_conv)
    then have "\<forall>d. Sleep d \<notin> set evs"
      using open_file_no_sleep by simp
    with eq show ?thesis by blast
  qed
  have plain: "evs \<noteq> [] \<and> last evs = Sleep (interval p) \<and> (\<forall>d. Sleep d \<notin> set (butlast evs))"
    if a: "\<not> (fst (detect_truncate p st f) \<and> read_full_on_truncate p) \<and> r = None"
  proof -
    obtain b st1 where d: "detect_truncate p st f = (b, st1)"
      by (cases "detect_truncate p st f")
    with a assms have "evs = [Sleep (interval p)]
        \<or> (\<exists>t. evs = [Emit t, Sleep (interval p)])"
      by (auto simp: poll_cycle_def Let_def split: option.splits if_splits)
    then show ?thesis by auto
  qed
  from replay plain show ?thesis by blast
qed

theorem poll_cycle_sleep_witness:
  "fst (poll_cycle default_params info_processor (tail_state 0 0) (plain_file 4 (lit ''INFO'')))
     = [Emit (lit ''INFO''), Sleep (Fin 1)]
   \<and> fst (poll_cycle default_params info_processor (tail_state 4 4) (plain_file 4 (lit ''INFO'')))
     = [Sleep (Fin 1)]
   \<and> poll_cycle default_params info_processor (tail_state 2000 2000)
        (plain_file 9 (lit ''INFO line''))
     = open_file default_params info_processor
         ((tail_state 2000 2000)\<lparr>stats_truncates := 1, last_file_size := 9\<rparr>) True
         (plain_file 9 (lit ''INFO line''))
   \<and> fst (poll_cycle default_params info_processor (tail_state 2000 2000)
             (plain_file 9 (lit ''INFO line'')))
     = [CloseHandle, Emit (lit ''INFO line'')]
   \<and> file_handle (fst (snd (poll_cycle default_params info_processor (tail_state 2000 2000)
                               (plain_file 9 (lit ''INFO line'')))))
     = Some \<lparr>h_pos = 9, h_close_fails = False\<rparr>"
  using poll_cycle_sleep [of default_params info_processor "tail_state 0 0"
      "plain_file 4 (lit ''INFO'')"
      "fst (poll_cycle default_params info_processor (tail_state 0 0) (plain_file 4 (lit ''INFO'')))"
      "fst (snd (poll_cycle default_params info_processor (tail_state 0 0) (plain_file 4 (lit ''INFO''))))"
      "snd (snd (poll_cycle default_params info_processor (tail_state 0 0) (plain_file 4 (lit ''INFO''))))"]
    poll_cycle_sleep [of default_params info_processor "tail_state 2000 2000"
      "plain_file 9 (lit ''INFO line'')"
      "fst (poll_cycle default_params info_processor (tail_state 2000 2000)
              (plain_file 9 (lit ''INFO line'')))"
      "fst (snd (poll_cycle default_params info_processor (tail_state 2000 2000)
              (plain_file 9 (lit ''INFO line''))))"
      "snd (snd (poll_cycle default_params info_processor (tail_state 2000 2000)
              (plain_file 9 (lit ''INFO line''))))"]
  by (simp add: poll_cycle_def detect_truncate_def open_file_def close_file_def tail_state_def
      init_state_def plain_file_def default_params_def read_full_loop.simps file_read_def Let_def
      info_processor_def filter_py_def clean_def lit_def char_fix_match_def CHAR_FIX_MAP_def)

subsection \<open>Stopping twice\<close>

text \<open>
  Claim C8, as stated, fails: the report is printed only when \<open>show_stats\<close> is set. With
  \<open>show_stats\<close> off, stopping a running monitor twice prints no report.
\<close>

theorem stop_twice_no_report:
  "count_list
     (fst (stop (default_params\<lparr>show_stats := False\<rparr>) (tail_state 0 0))
      @ fst (stop (default_params\<lparr>show_stats := False\<rparr>)
               (fst (snd (stop (default_params\<lparr>show_stats := False\<rparr>) (tail_state 0 0))))))
     StatsReport = 0"
  by (simp add: stop_def close_file_def tail_state_def init_state_def default_params_def
      print_stats_def)

text \<open>
  Claim C8, amended. When \<open>stop\<close> is called on a running monitor and then once more,
  the first call ends in \<open>sys.exit(0)\<close> with the monitor stopped and the handle gone, the
  second call is a no-op (no output, no change of state, a plain return), and the two calls
  together print exactly one statistics report when \<open>show_stats\<close> is set and none
  otherwise, and close the handle once when there was one and never otherwise.
\<close>

theorem stop_twice:
  assumes "is_running st"
    and "stop p st = (evs1, st1, r1)" and "stop p st1 = (evs2, st2, r2)"
  shows "r1 = Some 0 \<and> \<not> is_running st1 \<and> file_handle st1 = None
       \<and> evs2 = [] \<and> st2 = st1 \<and> r2 = None
       \<and> count_list (evs1 @ evs2) StatsReport = (if show_stats p then 1 else 0)
       \<and> count_list (evs1 @ evs2) CloseHandle = (if file_handle st = None then 0 else 1)"
proof -
  obtain evs0 st0 where cf: "close_file (st\<lparr>is_running := False\<rparr>) = (evs0, st0)"
    by (cases "close_file (st\<lparr>is_running := False\<rparr>)")
  then have st0: "\<not> is_running st0" "file_handle st0 = None"
    and e0: "evs0 = (if file_handle st = None then [] else [CloseHandle])"
    by (auto simp: close_file_def split: option.splits if_splits)
  from assms(1,2) cf have r1: "r1 = Some 0" and s1: "st1 = st0"
    and e1: "evs1 = evs0 @ print_stats p
               @ (if auto_close_delay p > 0
                  then replicate (nat (auto_close_delay p)) (Sleep (Fin 1)) else [])"
    by (auto simp: stop_def)
  from assms(3) s1 st0 have second: "evs2 = []" "st2 = st1" "r2 = None"
    by (auto simp: stop_def)
  have "count_list evs1 StatsReport = (if show_stats p then 1 else 0)"
    unfolding e1 e0 by (simp add: print_stats_def count_list_0_iff)
  moreover have "count_list evs1 CloseHandle = (if file_handle st = None then 0 else 1)"
    unfolding e1 e0 by (simp add: print_stats_def count_list_0_iff)
  ultimately show ?thesis using r1 s1 st0 second by simp
qed

theorem stop_twice_witness:
  "count_list
     (fst (stop default_params (tail_state 0 0))
      @ fst (stop default_params (fst (snd (stop default_params (tail_state 0 0))))))
     StatsReport = 1
   \<and> count_list
     (fst (stop default_params (tail_state 0 0))
      @ fst (stop default_params (fst (snd (stop default_params (tail_state 0 0))))))
     CloseHandle = 1
   \<and> fst (stop default_params (fst (snd (stop default_params (tail_state 0 0))))) = []"
  using stop_twice [of "tail_state 0 0" default_params
      "fst (stop default_params (tail_state 0 0))"
      "fst (snd (stop default_params (tail_state 0 0)))"
      "snd (snd (stop default_params (tail_state 0 0)))"
      "fst (stop default_params (fst (snd (stop default_params (tail_state 0 0)))))"
      "fst (snd (stop default_params (fst (snd (stop default_params (tail_state 0 0))))))"
      "snd (snd (stop default_params (fst (snd (stop default_params (tail_state 0 0))))))"]
  by (simp add: stop_def close_file_def tail_state_def init_state_def default_params_def
      print_stats_def)

subsection \<open>Exit status\<close>

lemma load_nowait_config:
  "validate_and_load_params plain_resolve nowait_config
     = Inr (default_params\<lparr>wait_for_file := False\<rparr>)"
  by (simp add: validate_and_load_params_def bind_exc_def nowait_config_def default_params_def
      get_param_def get_param_bool_def get_param_int_def get_param_float_def get_param_str_def
      py_max_def py_min_def SUPPORTED_ENCODINGS_def SUPPORTED_ERROR_HANDLES_def
      plain_resolve_default)

lemma stop_exit_code: "stop p st = (evs, st', Some c) \<Longrightarrow> c = 0"
  by (auto simp: stop_def split: if_splits prod.splits)

lemma run_exit_code: "run p q st cycles = (evs, st', SysExit c) \<Longrightarrow> c = 0"
proof (induction cycles arbitrary: st evs st')
  case Nil
  then show ?case by (simp split: if_splits)
next
  case (Cons fc cycles)
  obtain f sg where fc: "fc = (f, sg)" by (cases fc)
  from Cons.prems fc Cons.IH stop_exit_code show ?case
    by (fastforce split: if_splits prod.splits option.splits)
qed

lemma start_exit_code: "start p q st obs cycles = (evs, st', SysExit c) \<Longrightarrow> c = 0"
proof -
  assume a: "start p q st obs cycles = (evs, st', SysExit c)"
  obtain e1 s1 r1 where t: "start_try p q st obs cycles = (e1, s1, r1)"
    by (cases "start_try p q st obs cycles")
  have inner: "r1 = SysExit k \<Longrightarrow> k = 0" for k
    using t run_exit_code
    by (fastforce simp: start_try_def split: prod.splits validation.splits option.splits)
  from a t inner stop_exit_code show ?thesis
    by (fastforce simp: start_def split: outcome.splits prod.splits option.splits)
qed

lemma start_not_raised: "start p q st obs cycles = (evs, st', r) \<Longrightarrow> r \<noteq> Raised e"
  by (auto simp: start_def split: outcome.splits prod.splits option.splits)

text \<open>
  Once the parameters are loaded, every way in which \<open>main\<close> ends gives the exit status
  0: no exception leaves \<open>start\<close>, and every \<open>sys.exit\<close> on the way is \<open>sys.exit(0)\<close>.
  Status 1 is left for a failure of the constructor, which includes a path that the
  resolver refuses and a read of the parser that raises past \<open>_get_param\<close>.
\<close>

lemma main_exit_status:
  "validate_and_load_params resolve cp = Inr p \<Longrightarrow> main resolve cp obs cycles = Some c
     \<Longrightarrow> c = 0"
  using start_exit_code start_not_raised
  by (fastforce simp: main_def split: prod.splits outcome.splits)

lemma init_failure_exit_status:
  "validate_and_load_params resolve cp = Inl e \<Longrightarrow> main resolve cp obs cycles = Some 1"
  by (simp add: main_def)

lemma graceful_stop_exit_status:
  "main plain_resolve nowait_config [plain_file 0 []] [(plain_file 0 [], True)] = Some 0"
  by (simp add: main_def load_nowait_config start_def start_try_def open_file_def close_file_def
      stop_def init_state_def plain_file_def default_params_def set_keywords_def
      new_processor_def poll_cycle_def detect_truncate_def file_read_def print_stats_def Let_def)

text \<open>
  Claim C3 asks for a non-zero exit status on every unrecoverable startup failure. The
  program gives status 0 on each of the four: with waiting disabled and the file missing,
  with a path that is not a regular file, with a file that is not readable, and with a
  failing \<open>open\<close>. The exception is swallowed by \<open>except Exception\<close> in \<open>start\<close>, the
  \<open>stop\<close> of the \<open>finally\<close> clause returns at once because the monitor never ran, and
  \<open>main\<close> returns normally, past its own \<open>sys.exit(1)\<close>.
\<close>

theorem startup_failure_exit_status:
  "main plain_resolve nowait_config [(plain_file 0 [])\<lparr>f_exists := False\<rparr>] cycles = Some 0
   \<and> main plain_resolve nowait_config [(plain_file 0 [])\<lparr>f_is_file := False\<rparr>] cycles
       = Some 0
   \<and> main plain_resolve nowait_config [(plain_file 0 [])\<lparr>f_readable := False\<rparr>] cycles
       = Some 0
   \<and> main plain_resolve nowait_config [(plain_file 0 [])\<lparr>f_open_fails := True\<rparr>] cycles
       = Some 0"
  by (simp add: main_def load_nowait_config start_def start_try_def open_file_def close_file_def
      stop_def init_state_def plain_file_def default_params_def set_keywords_def
      new_processor_def)

end
